theory Spec2Isabelle
  imports Main "HOL-Library.Sublist" "HOL-Library.Multiset"
begin

section \<open>JavaScript strings\<close>

text \<open>
  A JavaScript string is modelled as a \<open>string\<close> whose characters are code units in the
  range 0..255 (ASCII and Latin-1); \<open>length\<close> is the source's \<open>.length\<close>.
  A JavaScript \<open>Error\<close> is modelled by its message.
\<close>

type_synonym error = string

definition isWhiteSpace :: "char \<Rightarrow> bool" where
  \<comment> \<open>the characters \<open>String.prototype.trim\<close> strips and the regular expression class
      \<open>\s\<close> matches: TAB, LF, VT, FF, CR, SPACE, NBSP\<close>
  "isWhiteSpace c = (let n = (of_char c :: nat) in (9 \<le> n \<and> n \<le> 13) \<or> n = 32 \<or> n = 160)"

definition trim :: "string \<Rightarrow> string" where
  "trim s = rev (dropWhile isWhiteSpace (rev (dropWhile isWhiteSpace s)))"

definition lowerChar :: "char \<Rightarrow> char" where
  "lowerChar c = (let n = (of_char c :: nat) in
     if (65 \<le> n \<and> n \<le> 90) \<or> (192 \<le> n \<and> n \<le> 222 \<and> n \<noteq> 215)
     then char_of (n + 32) else c)"

definition toLowerCase :: "string \<Rightarrow> string" where
  "toLowerCase s = map lowerChar s"

fun includesStr :: "string \<Rightarrow> string \<Rightarrow> bool" where
  \<comment> \<open>\<open>s.includes(p)\<close>\<close>
  "includesStr [] p = (p = [])"
| "includesStr (c # cs) p = (prefix p (c # cs) \<or> includesStr cs p)"

definition endsWith :: "string \<Rightarrow> string \<Rightarrow> bool" where
  "endsWith s p = suffix p s"

fun split :: "char \<Rightarrow> string \<Rightarrow> string list" where
  \<comment> \<open>\<open>s.split(sep)\<close> for a one-character separator; the result is never empty\<close>
  "split sep [] = [[]]"
| "split sep (c # cs) =
     (if c = sep then [] # split sep cs
      else (case split sep cs of
              [] \<Rightarrow> [[c]]
            | seg # segs \<Rightarrow> (c # seg) # segs))"

definition replaceAll :: "char \<Rightarrow> char \<Rightarrow> string \<Rightarrow> string" where
  \<comment> \<open>\<open>s.replace(/a/g, b)\<close> for single characters\<close>
  "replaceAll a b s = map (\<lambda>c. if c = a then b else c) s"

fun join :: "string \<Rightarrow> string list \<Rightarrow> string" where
  \<comment> \<open>\<open>xs.join(sep)\<close>\<close>
  "join sep [] = []"
| "join sep [x] = x"
| "join sep (x # y # ys) = x @ sep @ join sep (y # ys)"

definition allowedChar :: "char \<Rightarrow> bool" where
  \<comment> \<open>the class \<open>[a-zA-Z0-9\s,.&-]\<close>\<close>
  "allowedChar c = (let n = (of_char c :: nat) in
     (97 \<le> n \<and> n \<le> 122) \<or> (65 \<le> n \<and> n \<le> 90) \<or> (48 \<le> n \<and> n \<le> 57) \<or>
     isWhiteSpace c \<or> c = CHR '','' \<or> c = CHR ''.'' \<or> c = CHR ''&'' \<or> c = CHR ''-'')"

definition hasSpecialChar :: "string \<Rightarrow> bool" where
  \<comment> \<open>\<open>s.match(/[^a-zA-Z0-9\s,.&-]/)\<close> is truthy\<close>
  "hasSpecialChar s = list_ex (\<lambda>c. \<not> allowedChar c) s"


section \<open>The description generator (GPTClient)\<close>

text \<open>
  The completion API is a black box. One call to it ends in one of four ways: the model
  refuses; the parsed payload has the field \<open>altText\<close>; something in the \<open>try\<close> block
  throws an \<open>Error\<close> with a message (the API call, \<open>JSON.parse\<close>, a missing field); or a
  value without a message is thrown, which makes the inner handler itself fail.
\<close>

datatype completion =
    Refusal
  | Parsed string
  | Throws error
  | ThrowsNoMessage

text \<open>
  The observable state of a run: the bodies posted to the GraphQL endpoint so far and the
  (image URL, image title) pairs of the completion calls made so far. The k-th call to
  either service is answered by the k-th element of the environment's script.
\<close>

datatype body =
    ScopesQuery
  | FilesQuery nat "string option"
  | FileUpdate string string

record world =
  sent :: "body list"
  asked :: "(string \<times> string) list"

datatype loop_exit = Return string | Break | Unexpected

definition accessibilityIssue :: "string \<Rightarrow> bool" where
  "accessibilityIssue altText =
     (includesStr (toLowerCase altText) ''image of'' \<or>
      includesStr (toLowerCase altText) ''picture of'' \<or>
      hasSpecialChar altText)"

function attemptLoop ::
  "(nat \<Rightarrow> completion) \<Rightarrow> string \<Rightarrow> string \<Rightarrow> nat \<Rightarrow> world \<Rightarrow> loop_exit \<times> world" where
  "attemptLoop gpt imageUrl imageTitle attempts w =
     (if attempts < 3 then
        (let w' = w\<lparr>asked := asked w @ [(imageUrl, imageTitle)]\<rparr> in
         case gpt (length (asked w)) of
           Refusal \<Rightarrow> (Break, w')
         | Parsed raw \<Rightarrow>
             (let altText = trim raw in
              if accessibilityIssue altText
              then \<comment> \<open>throws 'Invalid alt tag format', which is no rate limit message\<close>
                (if includesStr ''Invalid alt tag format'' ''rate limit'' \<and> attempts < 3 - 1
                 then attemptLoop gpt imageUrl imageTitle (attempts + 1) w'
                 else (Break, w'))
              else (Return altText, w'))
         | Throws msg \<Rightarrow>
             (if includesStr msg ''rate limit'' \<and> attempts < 3 - 1
              then attemptLoop gpt imageUrl imageTitle (attempts + 1) w'
              else (Break, w'))
         | ThrowsNoMessage \<Rightarrow> (Unexpected, w'))
      else (Break, w))"
  by pat_completeness auto
termination
  by (relation "measure (\<lambda>(gpt, imageUrl, imageTitle, attempts, w). 3 - attempts)") auto

declare attemptLoop.simps [simp del]

definition fallbackText :: "string \<Rightarrow> string" where
  "fallbackText imageTitle =
     (let t0 = replaceAll CHR ''_'' CHR '' '' (hd (split CHR ''-'' imageTitle))
               @ '' specialty coffee on Beans.ie'';
          t1 = (if length t0 < 60 then t0 @ '' from global roasters'' else t0);
          t2 = (if length t1 > 125 then take 125 t1 else t1)
      in t2)"

definition finalValidation :: "string \<Rightarrow> bool" where
  "finalValidation t =
     (length t \<ge> 60 \<and> length t \<le> 125 \<and> includesStr (toLowerCase t) ''coffee'' \<and>
      \<not> hasSpecialChar t)"

definition generateAltTag ::
  "(nat \<Rightarrow> completion) \<Rightarrow> string \<Rightarrow> string \<Rightarrow> world \<Rightarrow> string option \<times> world" where
  "generateAltTag gpt imageUrl imageTitle w =
     (case attemptLoop gpt imageUrl imageTitle 0 w of
        (Return altText, w') \<Rightarrow> (Some altText, w')
      | (Unexpected, w') \<Rightarrow> (None, w')
      | (Break, w') \<Rightarrow>
          (if finalValidation (fallbackText imageTitle)
           then (Some (fallbackText imageTitle), w')
           else (None, w')))"


section \<open>The media client (ShopifyClient)\<close>

text \<open>
  One \<open>fetch\<close> either rejects (the network, or \<open>response.json()\<close>) with a message, or
  gives a response with a status, a status text and a JSON body
  \<open>{errors?, data?}\<close>. \<open>response.ok\<close> is true for the statuses 200 to 299.
\<close>

record gql_error =
  message :: string
  code :: "string option"

record node =
  node_id :: string
  alt :: "string option"
  image_url :: "string option"

record files_page =
  edges :: "node list"
  hasNextPage :: bool
  endCursor :: "string option"

record gql_data =
  accessScopes :: "string list option"
  files :: "files_page option"
  userErrors :: "string list"

record json =
  errors :: "gql_error list option"
  data :: "gql_data option"

datatype http_reply =
    FetchError error
  | Response nat string json

record env =
  http :: "nat \<Rightarrow> http_reply"
  gpt :: "nat \<Rightarrow> completion"
  gptClientError :: "error option"
  mkdirError :: "error option"
  writeFileError :: "error option"

definition digit :: "nat \<Rightarrow> char" where
  "digit d = char_of (48 + d)"

function showNat :: "nat \<Rightarrow> string" where
  "showNat n = (if n < 10 then [digit n] else showNat (n div 10) @ [digit (n mod 10)])"
  by pat_completeness auto
termination
  by (relation "measure id") auto

declare showNat.simps [simp del]

definition ok :: "nat \<Rightarrow> bool" where
  "ok status = (200 \<le> status \<and> status < 300)"

definition httpErrorMessage :: "nat \<Rightarrow> string \<Rightarrow> json \<Rightarrow> error" where
  "httpErrorMessage status statusText js =
     ''HTTP '' @ showNat status @ '': '' @
       (let joined = (case errors js of None \<Rightarrow> [] | Some es \<Rightarrow> join '', '' (map message es))
        in if joined = [] then statusText else joined)"

datatype attempt_result = Returns "gql_data option" | Continue | Thrown error

definition tryFetch :: "http_reply \<Rightarrow> attempt_result" where
  \<comment> \<open>the body of the \<open>try\<close> block of \<open>request\<close>, for one reply\<close>
  "tryFetch r =
     (case r of
        FetchError msg \<Rightarrow> Thrown msg
      | Response status statusText js \<Rightarrow>
          if \<not> ok status then
            (if status = 429 then Continue
             else if (case errors js of None \<Rightarrow> False
                      | Some es \<Rightarrow> list_ex (\<lambda>x. code x = Some ''MAX_COST_EXCEEDED'') es)
             then Thrown ''Query cost exceeded. Reduce the \"first\" parameter or use bulk operations.''
             else Thrown (httpErrorMessage status statusText js))
          else (case errors js of
                  Some es \<Rightarrow> Thrown (''GraphQL errors: '' @ join '', '' (map message es))
                | None \<Rightarrow> Returns (data js)))"

function requestLoop :: "env \<Rightarrow> body \<Rightarrow> nat \<Rightarrow> world \<Rightarrow> (error + gql_data option) \<times> world" where
  "requestLoop e b attempts w =
     (if attempts < 3 then
        (let w' = w\<lparr>sent := sent w @ [b]\<rparr>
         in case tryFetch (http e (length (sent w))) of
              Returns d \<Rightarrow> (Inr d, w')
            | Continue \<Rightarrow> requestLoop e b (attempts + 1) w'
            | Thrown msg \<Rightarrow>
                if (includesStr msg ''ETIMEDOUT'' \<or> includesStr msg ''429'') \<and> attempts + 1 < 3
                then requestLoop e b (attempts + 1) w'
                else (Inl msg, w'))
      else (Inl ''Max retry attempts reached for GraphQL request.'', w))"
  by pat_completeness auto
termination
  by (relation "measure (\<lambda>(e, b, attempts, w). 3 - attempts)") auto

declare requestLoop.simps [simp del]

definition request :: "env \<Rightarrow> body \<Rightarrow> world \<Rightarrow> (error + gql_data option) \<times> world" where
  "request e b w = requestLoop e b 0 w"

text \<open>
  A \<open>TypeError\<close> raised when a property of \<open>null\<close> or \<open>undefined\<close> is read; the
  exact wording depends on the JavaScript engine and is never inspected by the program.
\<close>

definition typeError :: error where
  "typeError = ''Cannot read properties of undefined''"

definition verifyScopes :: "env \<Rightarrow> string list \<Rightarrow> world \<Rightarrow> (error + bool) \<times> world" where
  "verifyScopes e requiredScopes w =
     (case request e ScopesQuery w of
        (Inl err, w') \<Rightarrow> (Inl err, w')
      | (Inr None, w') \<Rightarrow> (Inl typeError, w')
      | (Inr (Some d), w') \<Rightarrow>
          (case accessScopes d of
             None \<Rightarrow> (Inl typeError, w')
           | Some grantedScopes \<Rightarrow>
               (Inr (list_all (\<lambda>scope. scope \<in> set grantedScopes) requiredScopes), w')))"

record image =
  id' :: string
  altText :: "string option"
  filename :: string
  url :: string

definition toImage :: "node \<Rightarrow> image" where
  \<comment> \<open>the callback of \<open>files.edges.map\<close>\<close>
  "toImage n =
     (let fromId = last (split CHR ''/'' (node_id n));
          filename =
            (case image_url n of
               None \<Rightarrow> fromId
             | Some u \<Rightarrow>
                 if u = [] then fromId
                 else (let urlParts = split CHR ''/'' u;
                           fromUrl = hd (split CHR ''?'' (last urlParts))
                       in if fromUrl = [] then fromId else fromUrl))
      in \<lparr>id' = node_id n, altText = alt n, filename = filename,
          url = (case image_url n of None \<Rightarrow> [] | Some u \<Rightarrow> u)\<rparr>)"

partial_function (option) getAllImagesLoop ::
  "env \<Rightarrow> image list \<Rightarrow> string option \<Rightarrow> bool \<Rightarrow> world \<Rightarrow> ((error + image list) \<times> world) option" where
  "getAllImagesLoop e images after hasNext w =
     (if hasNext then
        (case request e (FilesQuery 50 after) w of
           (Inl err, w') \<Rightarrow> Some (Inl err, w')
         | (Inr None, w') \<Rightarrow> Some (Inl ''Invalid response from Shopify GraphQL API'', w')
         | (Inr (Some d), w') \<Rightarrow>
             (case files d of
                None \<Rightarrow> Some (Inl ''Invalid response from Shopify GraphQL API'', w')
              | Some fs \<Rightarrow>
                  getAllImagesLoop e (images @ map toImage (edges fs)) (endCursor fs)
                    (hasNextPage fs) w'))
      else Some (Inr images, w))"

declare getAllImagesLoop.simps [code]

definition getAllImages :: "env \<Rightarrow> world \<Rightarrow> ((error + image list) \<times> world) option" where
  "getAllImages e w = getAllImagesLoop e [] None True w"

definition updateImageAltTag :: "env \<Rightarrow> string \<Rightarrow> string \<Rightarrow> world \<Rightarrow> (error + unit) \<times> world" where
  "updateImageAltTag e imageId text w =
     (case request e (FileUpdate imageId text) w of
        (Inl err, w') \<Rightarrow> (Inl err, w')
      | (Inr None, w') \<Rightarrow> (Inl typeError, w')
      | (Inr (Some d), w') \<Rightarrow>
          (if length (userErrors d) > 0
           then (Inl (''Failed to update image '' @ imageId @ '': '' @ join '', '' (userErrors d)), w')
           else (Inr (), w')))"


section \<open>The orchestrator (main)\<close>

record BatchResult =
  imageId :: string
  altTag :: "string option"
  imageUrl :: string
  error :: "error option"

record batch_entry =
  batch :: nat
  updates :: "BatchResult list"

record report =
  dryRun :: bool
  batches :: "batch_entry list"

record outcome =
  caught :: "error option"
  final :: world
  writeCalls :: "report list"
  outputFiles :: "report list"

definition isMissingAlt :: "image \<Rightarrow> bool" where
  "isMissingAlt img =
     (case altText img of None \<Rightarrow> True | Some a \<Rightarrow> a = [] \<or> trim a = [])"

definition isSupportedFormat :: "image \<Rightarrow> bool" where
  "isSupportedFormat img = (\<not> endsWith (toLowerCase (url img)) ''.svg'')"

definition imagesMissingAlt :: "image list \<Rightarrow> image list" where
  "imagesMissingAlt images =
     filter (\<lambda>img. isMissingAlt img \<and> isSupportedFormat img) images"

definition slice :: "'a list \<Rightarrow> nat \<Rightarrow> nat \<Rightarrow> 'a list" where
  "slice xs a b = take (b - a) (drop a xs)"

definition imageTitleOf :: "image \<Rightarrow> string" where
  \<comment> \<open>\<open>image.filename || 'Coffee product image'\<close>\<close>
  "imageTitleOf img = (if filename img = [] then ''Coffee product image'' else filename img)"

text \<open>
  The callback of \<open>batch.map\<close>. The callbacks of one batch run concurrently in the source
  and each pushes exactly once; the model runs them one after the other, in the order of
  the batch.
\<close>

definition processImage ::
  "env \<Rightarrow> bool \<Rightarrow> image \<Rightarrow> nat \<times> world \<times> BatchResult list \<Rightarrow> nat \<times> world \<times> BatchResult list" where
  "processImage e dry img acc =
     (case acc of (estimatedTokensUsed, w, batchUpdates) \<Rightarrow>
        (case generateAltTag (gpt e) (url img) (imageTitleOf img) w of (altText', w1) \<Rightarrow>
           (let est = estimatedTokensUsed + 1000 in
            if dry then
              (est, w1, batchUpdates @
                 [\<lparr>imageId = id' img, altTag = altText', imageUrl = url img, error = None\<rparr>])
            else
              (case altText' of
                 Some t \<Rightarrow>
                   if t \<noteq> [] then
                     (case updateImageAltTag e (id' img) t w1 of
                        (Inr u, w2) \<Rightarrow>
                          (est, w2, batchUpdates @
                             [\<lparr>imageId = id' img, altTag = Some t, imageUrl = url img,
                               error = None\<rparr>])
                      | (Inl err, w2) \<Rightarrow>
                          (est, w2, batchUpdates @
                             [\<lparr>imageId = id' img, altTag = None, imageUrl = url img,
                               error = Some err\<rparr>]))
                   else
                     (est, w1, batchUpdates @
                        [\<lparr>imageId = id' img, altTag = None, imageUrl = url img,
                          error = None\<rparr>])
               | None \<Rightarrow>
                   (est, w1, batchUpdates @
                      [\<lparr>imageId = id' img, altTag = None, imageUrl = url img,
                        error = None\<rparr>])))))"

function batchLoop ::
  "env \<Rightarrow> bool \<Rightarrow> image list \<Rightarrow> nat \<Rightarrow> nat \<Rightarrow> world \<Rightarrow> batch_entry list
     \<Rightarrow> batch_entry list \<times> world" where
  "batchLoop e dry xs i estimatedTokensUsed w allUpdates =
     (if i < length xs then
        (let b = slice xs i (i + 5);
             batchNumber = i div 5 + 1;
             est = (if estimatedTokensUsed + length b * 1000 > 27000 then 0
                    else estimatedTokensUsed)
         in case foldl (\<lambda>acc img. processImage e dry img acc) (est, w, []) b of
              (est', w', batchUpdates) \<Rightarrow>
                batchLoop e dry xs (i + 5) est' w'
                  (allUpdates @ [\<lparr>batch = batchNumber, updates = batchUpdates\<rparr>]))
      else (allUpdates, w))"
  by pat_completeness auto
termination
  by (relation "measure (\<lambda>(e, dry, xs, i, est, w, allUpdates). length xs - i)") auto

declare batchLoop.simps [simp del]

definition missingScopes :: error where
  "missingScopes = ''Missing required API scopes: '' @ join '', '' [''read_files'', ''write_files'']
     @ ''. Please re-create the app with these permissions.''"

text \<open>
  The \<open>try\<close> block of \<open>main\<close>: the error it hands to the \<open>catch\<close> block (if any), the
  value of \<open>allUpdates\<close> and the state when it is left. \<open>None\<close> is a listing that never
  ends.
\<close>

definition tryBlock :: "env \<Rightarrow> bool \<Rightarrow> (error option \<times> batch_entry list \<times> world) option" where
  "tryBlock e dry =
     (case verifyScopes e [''read_files'', ''write_files''] \<lparr>sent = [], asked = []\<rparr> of
        (Inl err, w) \<Rightarrow> Some (Some err, [], w)
      | (Inr hasRequiredScopes, w) \<Rightarrow>
          if \<not> hasRequiredScopes then Some (Some missingScopes, [], w)
          else
            (case getAllImages e w of
               None \<Rightarrow> None
             | Some (Inl err, w') \<Rightarrow> Some (Some err, [], w')
             | Some (Inr images, w') \<Rightarrow>
                 if length (imagesMissingAlt images) = 0 then Some (None, [], w')
                 else
                   (case gptClientError e of
                      Some err \<Rightarrow> Some (Some err, [], w')
                    | None \<Rightarrow>
                        (case mkdirError e of
                           Some err \<Rightarrow> Some (Some err, [], w')
                         | None \<Rightarrow>
                             (case batchLoop e dry (imagesMissingAlt images) 0 0 w' [] of
                                (allUpdates, w'') \<Rightarrow> Some (None, allUpdates, w''))))))"

definition finallyBlock :: "env \<Rightarrow> bool \<Rightarrow> batch_entry list \<Rightarrow> report list \<times> report list" where
  \<comment> \<open>the calls of \<open>fs.writeFile\<close> and the files that exist afterwards\<close>
  "finallyBlock e dry allUpdates =
     (if length allUpdates > 0 then
        (let r = \<lparr>dryRun = dry, batches = allUpdates\<rparr>
         in case writeFileError e of None \<Rightarrow> ([r], [r]) | Some err \<Rightarrow> ([r], []))
      else ([], []))"

definition main :: "env \<Rightarrow> bool \<Rightarrow> outcome option" where
  "main e dry =
     (case tryBlock e dry of
        None \<Rightarrow> None
      | Some (err, allUpdates, w) \<Rightarrow>
          (case finallyBlock e dry allUpdates of (calls, fs) \<Rightarrow>
             Some \<lparr>caught = err, final = w, writeCalls = calls, outputFiles = fs\<rparr>))"


section \<open>Notions of the specification\<close>

definition isMutation :: "body \<Rightarrow> bool" where
  \<comment> \<open>a posted body is a write mutation (\<open>fileUpdate\<close>)\<close>
  "isMutation b = (case b of FileUpdate i t \<Rightarrow> True | _ \<Rightarrow> False)"

definition spec_fallbackText :: "string \<Rightarrow> string" where
  \<comment> \<open>the fallback text in the words of the specification\<close>
  "spec_fallbackText title =
     (let segment = takeWhile (\<lambda>c. c \<noteq> CHR ''-'') title;
          spaced = map (\<lambda>c. if c = CHR ''_'' then CHR '' '' else c) segment;
          t = spaced @ '' specialty coffee on Beans.ie'';
          t = (if length t < 60 then t @ '' from global roasters'' else t)
      in if length t > 125 then take 125 t else t)"

definition spec_rules :: "string \<Rightarrow> bool" where
  \<comment> \<open>the length, keyword and character-class rules in the words of the specification\<close>
  "spec_rules t =
     (60 \<le> length t \<and> length t \<le> 125 \<and> sublist ''coffee'' (toLowerCase t) \<and>
      list_all allowedChar t)"

fun servesPages :: "env \<Rightarrow> nat \<Rightarrow> files_page list \<Rightarrow> bool" where
  \<comment> \<open>from the k-th fetch on the remote answers with the given pages, one per fetch, and
      \<open>hasNextPage\<close> is set on every page but the last\<close>
  "servesPages e k [] = True"
| "servesPages e k (p # ps) =
     ((case tryFetch (http e k) of
         Returns (Some d) \<Rightarrow> files d = Some p
       | _ \<Rightarrow> False) \<and>
      hasNextPage p = (ps \<noteq> []) \<and> servesPages e (k + 1) ps)"

fun expectedRequests :: "string option \<Rightarrow> files_page list \<Rightarrow> body list" where
  \<comment> \<open>one request per page, of page size 50, with the cursor of the page before\<close>
  "expectedRequests after [] = []"
| "expectedRequests after (p # ps) = FilesQuery 50 after # expectedRequests (endCursor p) ps"

definition entryKey :: "BatchResult \<Rightarrow> string \<times> string" where
  "entryKey r = (imageId r, imageUrl r)"

definition candidateKey :: "image \<Rightarrow> string \<times> string" where
  "candidateKey c = (id' c, url c)"

definition reportEntries :: "report list \<Rightarrow> BatchResult list" where
  "reportEntries rs = concat (map updates (concat (map batches rs)))"

fun generatedEntries :: "(nat \<Rightarrow> completion) \<Rightarrow> world \<Rightarrow> image list \<Rightarrow> BatchResult list" where
  \<comment> \<open>what a dry run has to record: for each Candidate in turn, an entry with its id and
      URL whose \<open>altTag\<close> is the text \<open>generateAltTag\<close> returns for it, and no error\<close>
  "generatedEntries g w [] = []"
| "generatedEntries g w (c # cs) =
     (case generateAltTag g (url c) (imageTitleOf c) w of
        (generated, w') \<Rightarrow>
          \<lparr>imageId = id' c, altTag = generated, imageUrl = url c, error = None\<rparr>
            # generatedEntries g w' cs)"


section \<open>Example runs\<close>

definition okReply :: "gql_data \<Rightarrow> http_reply" where
  "okReply d = Response 200 ''OK'' \<lparr>errors = None, data = Some d\<rparr>"

definition scopesData :: "string list \<Rightarrow> gql_data" where
  "scopesData handles = \<lparr>accessScopes = Some handles, files = None, userErrors = []\<rparr>"

definition filesData :: "files_page \<Rightarrow> gql_data" where
  "filesData p = \<lparr>accessScopes = None, files = Some p, userErrors = []\<rparr>"

definition updateData :: gql_data where
  "updateData = \<lparr>accessScopes = None, files = None, userErrors = []\<rparr>"

definition exampleEnv :: "string list \<Rightarrow> files_page list \<Rightarrow> completion \<Rightarrow> env" where
  \<comment> \<open>the scopes query is answered with the given handles, the listing with the given
      pages, every later request with an update without user errors; every completion
      call gets the same answer\<close>
  "exampleEnv handles pages c =
     \<lparr>http = (\<lambda>k. if k = 0 then okReply (scopesData handles)
                  else if k \<le> length pages then okReply (filesData (pages ! (k - 1)))
                  else okReply updateData),
      gpt = (\<lambda>k. c), gptClientError = None, mkdirError = None, writeFileError = None\<rparr>"

definition bothScopes :: "string list" where
  "bothScopes = [''read_files'', ''write_files'']"

definition ethiopiaNode :: node where
  "ethiopiaNode = \<lparr>node_id = ''gid://shopify/MediaImage/1'', alt = None,
     image_url = Some ''https://cdn.shopify.com/files/ethiopia_yirgacheffe.jpg?v=1''\<rparr>"

definition noUrlNode :: node where
  "noUrlNode = \<lparr>node_id = ''gid://shopify/MediaImage/2'', alt = Some '' '',
     image_url = None\<rparr>"

definition logoNode :: node where
  "logoNode = \<lparr>node_id = ''gid://shopify/MediaImage/3'', alt = Some '''',
     image_url = Some ''https://cdn.shopify.com/files/Logo.SVG''\<rparr>"

definition manyNodes :: "node list" where
  \<comment> \<open>seven assets, of which the logo is no Candidate: six Candidates, in two batches\<close>
  "manyNodes = [ethiopiaNode, noUrlNode, logoNode, ethiopiaNode, noUrlNode, ethiopiaNode,
     ethiopiaNode]"

definition onePage :: "node list \<Rightarrow> files_page" where
  "onePage ns = \<lparr>edges = ns, hasNextPage = False, endCursor = Some ''c9''\<rparr>"

definition firstPage :: "node list \<Rightarrow> files_page" where
  "firstPage ns = \<lparr>edges = ns, hasNextPage = True, endCursor = Some ''c1''\<rparr>"

definition world0 :: world where
  "world0 = \<lparr>sent = [], asked = []\<rparr>"


section \<open>Verification\<close>

lemma split_not_Nil: "split sep s \<noteq> []"
  by (induction s) (auto split: list.splits)

lemma hd_split: "hd (split sep s) = takeWhile (\<lambda>c. c \<noteq> sep) s"
  by (induction s) (auto split: list.splits simp: split_not_Nil)

lemma includesStr_sublist: "includesStr s p = sublist p s"
  by (induction s) (auto simp: sublist_Cons_right)

lemma trim_Nil_iff: "trim s = [] \<longleftrightarrow> (\<forall>c \<in> set s. isWhiteSpace c)"
proof
  assume "trim s = []"
  then have a: "\<forall>c \<in> set (dropWhile isWhiteSpace s). isWhiteSpace c"
    by (simp add: trim_def)
  show "\<forall>c \<in> set s. isWhiteSpace c"
  proof (cases "dropWhile isWhiteSpace s")
    case Nil
    then show ?thesis by simp
  next
    case (Cons x xs)
    then have "\<not> isWhiteSpace x" using hd_dropWhile[of isWhiteSpace s] by auto
    with a Cons show ?thesis by auto
  qed
next
  assume "\<forall>c \<in> set s. isWhiteSpace c"
  then show "trim s = []" by (auto simp: trim_def dest: set_dropWhileD)
qed

lemma requestLoop_unfold:
  "attempts < 3 \<Longrightarrow> requestLoop e b attempts w =
     (case tryFetch (http e (length (sent w))) of
        Returns d \<Rightarrow> (Inr d, w\<lparr>sent := sent w @ [b]\<rparr>)
      | Continue \<Rightarrow> requestLoop e b (attempts + 1) (w\<lparr>sent := sent w @ [b]\<rparr>)
      | Thrown msg \<Rightarrow>
          if (includesStr msg ''ETIMEDOUT'' \<or> includesStr msg ''429'') \<and> attempts + 1 < 3
          then requestLoop e b (attempts + 1) (w\<lparr>sent := sent w @ [b]\<rparr>)
          else (Inl msg, w\<lparr>sent := sent w @ [b]\<rparr>))"
  by (subst requestLoop.simps) (simp add: Let_def)

lemma requestLoop_done:
  "\<not> attempts < 3 \<Longrightarrow> requestLoop e b attempts w =
     (Inl ''Max retry attempts reached for GraphQL request.'', w)"
  by (subst requestLoop.simps) simp

lemma requestLoop_sent:
  "\<exists>k. k \<le> 3 - attempts \<and> (attempts < 3 \<longrightarrow> 1 \<le> k) \<and>
       snd (requestLoop e b attempts w) = w\<lparr>sent := sent w @ replicate k b\<rparr>"
proof (induction e b attempts w rule: requestLoop.induct)
  case (1 e b attempts w)
  let ?w' = "w\<lparr>sent := sent w @ [b]\<rparr>"
  show ?case
  proof (cases "attempts < 3")
    case False
    then show ?thesis by (intro exI[of _ 0]) (simp add: requestLoop_done)
  next
    case lt: True
    have step: "\<exists>k. k \<le> 3 - attempts \<and> 1 \<le> k \<and>
        snd (requestLoop e b (attempts + 1) ?w') = w\<lparr>sent := sent w @ replicate k b\<rparr>"
      if ih: "\<exists>k. k \<le> 3 - (attempts + 1) \<and> (attempts + 1 < 3 \<longrightarrow> 1 \<le> k) \<and>
        snd (requestLoop e b (attempts + 1) ?w') = ?w'\<lparr>sent := sent ?w' @ replicate k b\<rparr>"
    proof -
      from ih obtain k where k: "k \<le> 3 - (attempts + 1)"
        "snd (requestLoop e b (attempts + 1) ?w') = ?w'\<lparr>sent := sent ?w' @ replicate k b\<rparr>"
        by blast
      have "?w'\<lparr>sent := sent ?w' @ replicate k b\<rparr> = w\<lparr>sent := sent w @ replicate (Suc k) b\<rparr>"
        by simp
      with k lt show ?thesis by (intro exI[of _ "Suc k"]) simp
    qed
    have one: "\<exists>k. k \<le> 3 - attempts \<and> 1 \<le> k \<and> ?w' = w\<lparr>sent := sent w @ replicate k b\<rparr>"
      using lt by (intro exI[of _ 1]) simp
    note unf = requestLoop_unfold[OF lt, of e b w]
    show ?thesis
    proof (cases "tryFetch (http e (length (sent w)))")
      case (Returns d)
      with lt one show ?thesis unfolding unf by auto
    next
      case Continue
      with lt step[OF "1.IH"(1)[OF lt refl Continue]] show ?thesis
        unfolding unf by auto
    next
      case (Thrown msg)
      show ?thesis
      proof (cases "(includesStr msg ''ETIMEDOUT'' \<or> includesStr msg ''429'') \<and> attempts + 1 < 3")
        case True
        with lt Thrown step[OF "1.IH"(2)[OF lt refl Thrown True]] show ?thesis
          unfolding unf by auto
      next
        case False
        with lt Thrown one show ?thesis unfolding unf by auto
      qed
    qed
  qed
qed

lemma request_sent:
  "\<exists>k. 1 \<le> k \<and> k \<le> 3 \<and> snd (request e b w) = w\<lparr>sent := sent w @ replicate k b\<rparr>"
  using requestLoop_sent[of 0 e b w] by (auto simp: request_def)

lemma attemptLoop_unfold:
  "attempts < 3 \<Longrightarrow> attemptLoop g u t attempts w =
     (case g (length (asked w)) of
        Refusal \<Rightarrow> (Break, w\<lparr>asked := asked w @ [(u, t)]\<rparr>)
      | Parsed raw \<Rightarrow>
          if accessibilityIssue (trim raw) then (Break, w\<lparr>asked := asked w @ [(u, t)]\<rparr>)
          else (Return (trim raw), w\<lparr>asked := asked w @ [(u, t)]\<rparr>)
      | Throws msg \<Rightarrow>
          if includesStr msg ''rate limit'' \<and> attempts < 2
          then attemptLoop g u t (attempts + 1) (w\<lparr>asked := asked w @ [(u, t)]\<rparr>)
          else (Break, w\<lparr>asked := asked w @ [(u, t)]\<rparr>)
      | ThrowsNoMessage \<Rightarrow> (Unexpected, w\<lparr>asked := asked w @ [(u, t)]\<rparr>))"
  by (subst attemptLoop.simps) (simp add: Let_def split: completion.splits)

lemma attemptLoop_done: "\<not> attempts < 3 \<Longrightarrow> attemptLoop g u t attempts w = (Break, w)"
  by (subst attemptLoop.simps) simp

lemma attemptLoop_asked:
  "\<exists>k. k \<le> 3 - attempts \<and> (attempts < 3 \<longrightarrow> 1 \<le> k) \<and>
       snd (attemptLoop g u t attempts w) = w\<lparr>asked := asked w @ replicate k (u, t)\<rparr>"
proof (induction g u t attempts w rule: attemptLoop.induct)
  case (1 g u t attempts w)
  let ?w' = "w\<lparr>asked := asked w @ [(u, t)]\<rparr>"
  show ?case
  proof (cases "attempts < 3")
    case False
    then show ?thesis by (intro exI[of _ 0]) (simp add: attemptLoop_done)
  next
    case lt: True
    note unf = attemptLoop_unfold[OF lt, of g u t w]
    have one: "\<exists>k. k \<le> 3 - attempts \<and> 1 \<le> k \<and> ?w' = w\<lparr>asked := asked w @ replicate k (u, t)\<rparr>"
      using lt by (intro exI[of _ 1]) simp
    show ?thesis
    proof (cases "g (length (asked w))")
      case Refusal
      with lt one show ?thesis unfolding unf by auto
    next
      case (Parsed raw)
      with lt one show ?thesis unfolding unf by auto
    next
      case ThrowsNoMessage
      with lt one show ?thesis unfolding unf by auto
    next
      case (Throws msg)
      show ?thesis
      proof (cases "includesStr msg ''rate limit'' \<and> attempts < 2")
        case False
        with lt Throws one show ?thesis unfolding unf by auto
      next
        case True
        then have c: "includesStr msg ''rate limit'' \<and> attempts < 3 - 1" by simp
        from "1.IH"(2)[OF lt refl Throws c]
        obtain k where k: "k \<le> 3 - (attempts + 1)"
          "snd (attemptLoop g u t (attempts + 1) ?w') = ?w'\<lparr>asked := asked ?w' @ replicate k (u, t)\<rparr>"
          by blast
        have "?w'\<lparr>asked := asked ?w' @ replicate k (u, t)\<rparr>
                = w\<lparr>asked := asked w @ replicate (Suc k) (u, t)\<rparr>"
          by simp
        with k lt have "\<exists>k. k \<le> 3 - attempts \<and> 1 \<le> k \<and>
           snd (attemptLoop g u t (attempts + 1) ?w') = w\<lparr>asked := asked w @ replicate k (u, t)\<rparr>"
          by (intro exI[of _ "Suc k"]) simp
        with lt Throws True show ?thesis unfolding unf by auto
      qed
    qed
  qed
qed

lemma generateAltTag_snd: "snd (generateAltTag g u t w) = snd (attemptLoop g u t 0 w)"
  by (simp add: generateAltTag_def split: prod.splits loop_exit.splits)

lemma generateAltTag_asked:
  "\<exists>k. 1 \<le> k \<and> k \<le> 3 \<and>
       snd (generateAltTag g u t w) = w\<lparr>asked := asked w @ replicate k (u, t)\<rparr>"
  using attemptLoop_asked[of 0 g u t w] by (auto simp: generateAltTag_snd)

lemma attemptLoop_Return:
  "fst (attemptLoop g u t attempts w) = Return a \<Longrightarrow> \<not> accessibilityIssue a"
proof (induction g u t attempts w rule: attemptLoop.induct)
  case (1 g u t attempts w)
  show ?case
  proof (cases "attempts < 3")
    case False
    with "1.prems" show ?thesis by (simp add: attemptLoop_done)
  next
    case lt: True
    note unf = attemptLoop_unfold[OF lt, of g u t w]
    show ?thesis
    proof (cases "g (length (asked w))")
      case (Throws msg)
      show ?thesis
      proof (cases "includesStr msg ''rate limit'' \<and> attempts < 2")
        case True
        then have c: "includesStr msg ''rate limit'' \<and> attempts < 3 - 1" by simp
        from "1.prems" Throws True
        have "fst (attemptLoop g u t (attempts + 1) (w\<lparr>asked := asked w @ [(u, t)]\<rparr>)) = Return a"
          unfolding unf by simp
        with "1.IH"(2)[OF lt refl Throws c] show ?thesis by simp
      next
        case False
        with "1.prems" Throws show ?thesis unfolding unf by auto
      qed
    qed (use "1.prems" in \<open>auto simp: unf split: if_splits\<close>)
  qed
qed


lemma fallbackText_spec: "fallbackText title = spec_fallbackText title"
  by (simp add: fallbackText_def spec_fallbackText_def replaceAll_def hd_split Let_def)

lemma hasSpecialChar_iff: "hasSpecialChar t \<longleftrightarrow> \<not> list_all allowedChar t"
  by (induction t) (auto simp: hasSpecialChar_def)

lemma finalValidation_spec: "finalValidation t = spec_rules t"
  by (auto simp: finalValidation_def spec_rules_def includesStr_sublist hasSpecialChar_iff)

text \<open>
  What does hold of every text \<open>generateAltTag\<close> returns: a text of the model path has
  passed the accessibility check, a text of the fallback path has passed the final
  validation, and neither contains a character outside the allowed class.
\<close>

lemma generateAltTag_Some:
  assumes "fst (generateAltTag g u t w) = Some a"
  shows "\<not> hasSpecialChar a \<and>
    (case fst (attemptLoop g u t 0 w) of
       Return b \<Rightarrow> a = b \<and> \<not> accessibilityIssue a
     | Break \<Rightarrow> a = fallbackText t \<and> finalValidation a
     | Unexpected \<Rightarrow> False)"
proof (cases "fst (attemptLoop g u t 0 w)")
  case (Return b)
  with assms have "a = b"
    by (auto simp: generateAltTag_def split: prod.splits)
  with Return attemptLoop_Return[of g u t 0 w b] show ?thesis
    by (simp add: accessibilityIssue_def)
next
  case Break
  with assms have "a = fallbackText t \<and> finalValidation a"
    by (auto simp: generateAltTag_def split: prod.splits if_splits)
  with Break show ?thesis by (auto simp: finalValidation_def)
next
  case Unexpected
  with assms show ?thesis
    by (auto simp: generateAltTag_def split: prod.splits)
qed

text \<open>
  Claim C6. One logical request of the media client makes at least one and at most three
  HTTP attempts, all with the same body, before it returns data or raises; one call of
  \<open>generateAltTag\<close> makes at least one and at most three completion calls before it
  returns. Both functions are total, so they always come to an end.
\<close>

theorem C6_retry_bound:
  "length (sent w) < length (sent (snd (request e b w))) \<and>
   length (sent (snd (request e b w))) \<le> length (sent w) + 3 \<and>
   prefix (sent w) (sent (snd (request e b w))) \<and>
   length (asked w) < length (asked (snd (generateAltTag g u t w))) \<and>
   length (asked (snd (generateAltTag g u t w))) \<le> length (asked w) + 3 \<and>
   prefix (asked w) (asked (snd (generateAltTag g u t w)))"
proof -
  obtain k where "1 \<le> k" "k \<le> 3"
    "snd (request e b w) = w\<lparr>sent := sent w @ replicate k b\<rparr>"
    using request_sent by blast
  moreover obtain j where "1 \<le> j" "j \<le> 3"
    "snd (generateAltTag g u t w) = w\<lparr>asked := asked w @ replicate j (u, t)\<rparr>"
    using generateAltTag_asked by blast
  ultimately show ?thesis by simp
qed

theorem C6_retry_bound_witness:
  "length (sent (snd (request (exampleEnv bothScopes [] Refusal) ScopesQuery world0))) = 1 \<and>
   length (asked (snd (generateAltTag (\<lambda>k. Throws ''rate limit exceeded'') [] ''a.jpg'' world0))) = 3"
  using C6_retry_bound[where w = world0 and e = "exampleEnv bothScopes [] Refusal"
      and b = ScopesQuery and g = "\<lambda>k. Throws ''rate limit exceeded''" and u = "[]"
      and t = "''a.jpg''"]
  by code_simp

text \<open>
  Claim C8. The fallback text of the source is the text the specification describes: the
  part of the title before the first hyphen, underscores replaced by spaces, the suffix
  appended, the second suffix appended below 60 characters, cut to 125 characters.
  When the attempt loop is left without a result, \<open>generateAltTag\<close> returns this text
  if it satisfies the length, keyword and character rules, and null otherwise.
\<close>

theorem C8_fallback:
  "fallbackText title = spec_fallbackText title \<and>
   (fst (attemptLoop g u title 0 w) = Break \<longrightarrow>
      fst (generateAltTag g u title w) =
        (if spec_rules (spec_fallbackText title) then Some (spec_fallbackText title) else None))"
  by (auto simp: generateAltTag_def fallbackText_spec finalValidation_spec split: prod.splits)

theorem C8_fallback_witness:
  "fst (attemptLoop (\<lambda>k. Refusal) [] ''DAK_Gallery_6-min.jpg'' 0 world0) = Break \<and>
   fst (generateAltTag (\<lambda>k. Refusal) [] ''DAK_Gallery_6-min.jpg'' world0) =
     Some ''DAK Gallery 6 specialty coffee on Beans.ie from global roasters'' \<and>
   fst (generateAltTag (\<lambda>k. Refusal) [] ''kenya-aa_lot.jpg'' world0) = None"
  using C8_fallback[where title = "''DAK_Gallery_6-min.jpg''" and g = "\<lambda>k. Refusal"
      and u = "[]" and w = world0]
    C8_fallback[where title = "''kenya-aa_lot.jpg''" and g = "\<lambda>k. Refusal"
      and u = "[]" and w = world0]
  by code_simp

text \<open>
  Claim C1 (the invariant of every returned text) does not hold of the code. After a
  refusal the fallback path returns a text that contains "image of"; the model path
  returns a text of 9 characters without "coffee"; and a model text of 60 characters
  that ends in blanks is returned trimmed, with 57 characters.
\<close>

theorem C1_generateAltTag_unvalidated:
  "fst (generateAltTag (\<lambda>k. Refusal) ''https://cdn.shopify.com/files/an_image_of_a_very_nice_espresso_cup.jpg''
         ''an_image_of_a_very_nice_espresso_cup.jpg'' world0)
     = Some ''an image of a very nice espresso cup.jpg specialty coffee on Beans.ie'' \<and>
   includesStr (toLowerCase ''an image of a very nice espresso cup.jpg specialty coffee on Beans.ie'')
     ''image of'' \<and>
   fst (generateAltTag (\<lambda>k. Parsed ''Latte art'') ''https://cdn.shopify.com/files/a.jpg'' ''a.jpg'' world0)
     = Some ''Latte art'' \<and>
   length ''Latte art'' < 60 \<and>
   \<not> includesStr (toLowerCase ''Latte art'') ''coffee'' \<and>
   length ''Specialty coffee beans in a ceramic cup on a wooden table   '' = 60 \<and>
   fst (generateAltTag (\<lambda>k. Parsed ''Specialty coffee beans in a ceramic cup on a wooden table   '')
         ''https://cdn.shopify.com/files/a.jpg'' ''a.jpg'' world0)
     = Some ''Specialty coffee beans in a ceramic cup on a wooden table'' \<and>
   length ''Specialty coffee beans in a ceramic cup on a wooden table'' < 60"
  by code_simp

text \<open>
  Claim C4. A listed asset is selected as a Candidate if and only if its alt text is
  null, empty or made of white space only, and its lowercased URL does not end in ".svg".
\<close>

theorem C4_candidate_iff:
  "img \<in> set (imagesMissingAlt images) \<longleftrightarrow>
     img \<in> set images \<and>
     (case altText img of None \<Rightarrow> True | Some a \<Rightarrow> a = [] \<or> list_all isWhiteSpace a) \<and>
     \<not> suffix ''.svg'' (toLowerCase (url img))"
  by (auto simp: imagesMissingAlt_def isMissingAlt_def isSupportedFormat_def endsWith_def
      trim_Nil_iff list_all_iff split: option.splits)

theorem C4_candidate_iff_witness:
  "imagesMissingAlt (map toImage [ethiopiaNode, noUrlNode, logoNode])
     = map toImage [ethiopiaNode, noUrlNode] \<and>
   toLowerCase (url (toImage logoNode)) = ''https://cdn.shopify.com/files/logo'' @ ''.svg''"
  using C4_candidate_iff[where img = "toImage logoNode"
      and images = "map toImage [ethiopiaNode, noUrlNode, logoNode]"]
  by code_simp

lemma request_Returns:
  "tryFetch (http e (length (sent w))) = Returns d \<Longrightarrow>
   request e b w = (Inr d, w\<lparr>sent := sent w @ [b]\<rparr>)"
  by (simp add: request_def requestLoop_unfold)

lemma getAllImagesLoop_pages:
  "pages \<noteq> [] \<Longrightarrow> servesPages e (length (sent w)) pages \<Longrightarrow>
   getAllImagesLoop e images after True w =
     Some (Inr (images @ concat (map (\<lambda>p. map toImage (edges p)) pages)),
           w\<lparr>sent := sent w @ expectedRequests after pages\<rparr>)"
proof (induction pages arbitrary: images after w)
  case Nil
  then show ?case by simp
next
  case (Cons p ps)
  let ?w' = "w\<lparr>sent := sent w @ [FilesQuery 50 after]\<rparr>"
  from Cons.prems(2) obtain d where d: "tryFetch (http e (length (sent w))) = Returns (Some d)"
      "files d = Some p" and nxt: "hasNextPage p = (ps \<noteq> [])"
      and rest: "servesPages e (length (sent w) + 1) ps"
    by (auto split: attempt_result.splits option.splits)
  have req: "request e (FilesQuery 50 after) w = (Inr (Some d), ?w')"
    using d(1) by (rule request_Returns)
  have step: "getAllImagesLoop e images after True w =
      getAllImagesLoop e (images @ map toImage (edges p)) (endCursor p) (hasNextPage p) ?w'"
    by (subst getAllImagesLoop.simps) (simp add: req d(2))
  show ?case
  proof (cases ps)
    case Nil
    with nxt have "getAllImagesLoop e (images @ map toImage (edges p)) (endCursor p) (hasNextPage p) ?w'
        = Some (Inr (images @ map toImage (edges p)), ?w')"
      by (subst getAllImagesLoop.simps) simp
    with step Nil show ?thesis by simp
  next
    case (Cons q qs)
    then have ne: "ps \<noteq> []" by simp
    have "servesPages e (length (sent ?w')) ps" using rest by simp
    from Cons.IH[OF ne this, of "images @ map toImage (edges p)" "endCursor p"] step nxt ne
    show ?thesis by simp
  qed
qed

text \<open>
  Claim C7. When the remote answers the successive fetches with the N pages of a listing
  (N at least 1), \<open>hasNextPage\<close> being set on all but the last, \<open>getAllImages\<close>
  terminates, has issued exactly N requests of page size 50, the first without cursor and
  each later one with the end cursor of the page before, and returns the assets of all
  edges in page order.
\<close>

theorem C7_pagination:
  "pages \<noteq> [] \<Longrightarrow> servesPages e (length (sent w)) pages \<Longrightarrow>
   getAllImages e w =
     Some (Inr (concat (map (\<lambda>p. map toImage (edges p)) pages)),
           w\<lparr>sent := sent w @ expectedRequests None pages\<rparr>) \<and>
   length (expectedRequests None pages) = length pages"
proof -
  assume a: "pages \<noteq> []" "servesPages e (length (sent w)) pages"
  have "length (expectedRequests after pages) = length pages" for after
    by (induction pages arbitrary: after) auto
  with getAllImagesLoop_pages[OF a, of "[]" None] show ?thesis
    by (simp add: getAllImages_def)
qed

theorem C7_pagination_witness:
  "[firstPage [ethiopiaNode], onePage [noUrlNode]] \<noteq> [] \<and>
   servesPages (exampleEnv bothScopes [firstPage [ethiopiaNode], onePage [noUrlNode]] Refusal)
     (length (sent (world0\<lparr>sent := [ScopesQuery]\<rparr>))) [firstPage [ethiopiaNode], onePage [noUrlNode]] \<and>
   getAllImages (exampleEnv bothScopes [firstPage [ethiopiaNode], onePage [noUrlNode]] Refusal)
     (world0\<lparr>sent := [ScopesQuery]\<rparr>) =
     Some (Inr [toImage ethiopiaNode, toImage noUrlNode],
           world0\<lparr>sent := [ScopesQuery, FilesQuery 50 None, FilesQuery 50 (Some ''c1'')]\<rparr>)"
proof -
  have ne: "[firstPage [ethiopiaNode], onePage [noUrlNode]] \<noteq> []" by simp
  have sp: "servesPages (exampleEnv bothScopes [firstPage [ethiopiaNode], onePage [noUrlNode]] Refusal)
     (length (sent (world0\<lparr>sent := [ScopesQuery]\<rparr>))) [firstPage [ethiopiaNode], onePage [noUrlNode]]"
    by code_simp
  have ex: "expectedRequests None [firstPage [ethiopiaNode], onePage [noUrlNode]]
      = [FilesQuery 50 None, FilesQuery 50 (Some ''c1'')]"
    by (simp add: firstPage_def)
  show ?thesis using ne sp C7_pagination[OF ne sp] ex
    by (simp add: world0_def firstPage_def onePage_def)
qed

lemma verifyScopes_snd: "snd (verifyScopes e rs w) = snd (request e ScopesQuery w)"
  by (simp add: verifyScopes_def split: prod.splits sum.splits option.splits)

lemma updateImageAltTag_snd:
  "snd (updateImageAltTag e i t w) = snd (request e (FileUpdate i t) w)"
  by (simp add: updateImageAltTag_def split: prod.splits sum.splits option.splits)

lemma updateImageAltTag_world:
  "\<exists>k. 1 \<le> k \<and> k \<le> 3 \<and>
       snd (updateImageAltTag e i t w) = w\<lparr>sent := sent w @ replicate k (FileUpdate i t)\<rparr>"
  using request_sent[of e "FileUpdate i t" w] by (simp add: updateImageAltTag_snd)

lemma getAllImagesLoop_reads:
  assumes "getAllImagesLoop e0 images0 after0 hasNext0 w0 = Some y0"
  shows "asked (snd y0) = asked w0 \<and>
   (\<exists>qs. sent (snd y0) = sent w0 @ qs \<and> list_all (\<lambda>b. \<not> isMutation b) qs)"
proof (rule getAllImagesLoop.raw_induct[where P = "\<lambda>e images after hasNext w y.
    asked (snd y) = asked w \<and>
    (\<exists>qs. sent (snd y) = sent w @ qs \<and> list_all (\<lambda>b. \<not> isMutation b) qs)", OF _ assms],
    goal_cases)
  case (1 loop e images after hasNext w y)
  consider (stop) "\<not> hasNext" | (go) "hasNext" by blast
  then show ?case
  proof cases
    case stop
    with "1"(2) have "y = (Inr images, w)" by simp
    then have "sent (snd y) = sent w @ [] \<and> list_all (\<lambda>b. \<not> isMutation b) []"
      and "asked (snd y) = asked w" by simp_all
    then show ?thesis by blast
  next
    case go
    obtain x w1 where req: "request e (FilesQuery 50 after) w = (x, w1)"
      by (cases "request e (FilesQuery 50 after) w")
    obtain k where "snd (request e (FilesQuery 50 after) w)
        = w\<lparr>sent := sent w @ replicate k (FilesQuery 50 after)\<rparr>"
      using request_sent by blast
    with req have w1: "w1 = w\<lparr>sent := sent w @ replicate k (FilesQuery 50 after)\<rparr>" by simp
    have q: "list_all (\<lambda>b. \<not> isMutation b) (replicate k (FilesQuery 50 after))"
      by (simp add: list_all_iff isMutation_def)
    have base: "asked w1 = asked w \<and>
        (\<exists>qs. sent w1 = sent w @ qs \<and> list_all (\<lambda>b. \<not> isMutation b) qs)"
      using w1 q by auto
    show ?thesis
    proof (cases x)
      case (Inl err)
      with "1"(2) go req have "snd y = w1" by auto
      with base show ?thesis by simp
    next
      case (Inr d)
      show ?thesis
      proof (cases d)
        case None
        with "1"(2) go req Inr have "snd y = w1" by auto
        with base show ?thesis by simp
      next
        case (Some dat)
        show ?thesis
        proof (cases "files dat")
          case None
          with "1"(2) go req Inr Some have "snd y = w1" by auto
          with base show ?thesis by simp
        next
          case (Some fs)
          with "1"(2) go req Inr \<open>d = Some dat\<close>
          have "loop e (images @ map toImage (edges fs)) (endCursor fs) (hasNextPage fs) w1
              = Some y"
            by simp
          from "1"(1)[OF this]
          obtain qs where "asked (snd y) = asked w1" "sent (snd y) = sent w1 @ qs"
            "list_all (\<lambda>b. \<not> isMutation b) qs"
            by blast
          with w1 q show ?thesis
            by (intro conjI exI[of _ "replicate k (FilesQuery 50 after) @ qs"]) auto
        qed
      qed
    qed
  qed
qed

lemma processImage_dry:
  "processImage e True img (est, w, bs) =
     (est + 1000, snd (generateAltTag (gpt e) (url img) (imageTitleOf img) w),
      bs @ [\<lparr>imageId = id' img,
              altTag = fst (generateAltTag (gpt e) (url img) (imageTitleOf img) w),
              imageUrl = url img, error = None\<rparr>])"
  by (simp add: processImage_def split: prod.splits)

lemma updateImageAltTag_asked:
  "updateImageAltTag e i t w = (x, w2) \<Longrightarrow> asked w2 = asked w"
  using updateImageAltTag_world[of e i t w] by auto

lemma processImage_shape:
  "\<exists>r w' k. processImage e dry img (est, w, bs) = (est + 1000, w', bs @ [r]) \<and>
     entryKey r = candidateKey img \<and> 1 \<le> k \<and>
     asked w' = asked w @ replicate k (url img, imageTitleOf img) \<and>
     (dry \<longrightarrow> sent w' = sent w)"
proof -
  obtain a w1 where g: "generateAltTag (gpt e) (url img) (imageTitleOf img) w = (a, w1)"
    by (cases "generateAltTag (gpt e) (url img) (imageTitleOf img) w")
  obtain k where k: "1 \<le> k"
    "snd (generateAltTag (gpt e) (url img) (imageTitleOf img) w)
       = w\<lparr>asked := asked w @ replicate k (url img, imageTitleOf img)\<rparr>"
    using generateAltTag_asked by blast
  with g have w1: "asked w1 = asked w @ replicate k (url img, imageTitleOf img)"
    "sent w1 = sent w" by simp_all
  have "case processImage e dry img (est, w, bs) of (est', w', bs') \<Rightarrow>
      est' = est + 1000 \<and> (\<exists>r. bs' = bs @ [r] \<and> entryKey r = candidateKey img) \<and>
      asked w' = asked w1 \<and> (dry \<longrightarrow> sent w' = sent w1)"
    by (auto simp: processImage_def Let_def g entryKey_def candidateKey_def
        split: option.splits prod.splits sum.splits dest: updateImageAltTag_asked)
  with k(1) w1 show ?thesis by (auto split: prod.splits)
qed

lemma foldl_processImage:
  "\<exists>rs w'. foldl (\<lambda>acc img. processImage e dry img acc) (est, w, bs) b
        = (est + 1000 * length b, w', bs @ rs) \<and>
     map entryKey rs = map candidateKey b \<and>
     (dry \<longrightarrow> sent w' = sent w) \<and>
     set (asked w') = set (asked w) \<union> (\<lambda>img. (url img, imageTitleOf img)) ` set b"
proof (induction b arbitrary: est w bs)
  case Nil
  show ?case by simp
next
  case (Cons x xs)
  obtain r w1 k where p: "processImage e dry x (est, w, bs) = (est + 1000, w1, bs @ [r])"
      "entryKey r = candidateKey x" "1 \<le> k"
      "asked w1 = asked w @ replicate k (url x, imageTitleOf x)"
      "dry \<longrightarrow> sent w1 = sent w"
    using processImage_shape[of e dry x est w bs] by blast
  obtain rs w' where f: "foldl (\<lambda>acc img. processImage e dry img acc) (est + 1000, w1, bs @ [r]) xs
        = (est + 1000 + 1000 * length xs, w', (bs @ [r]) @ rs)"
      "map entryKey rs = map candidateKey xs" "dry \<longrightarrow> sent w' = sent w1"
      "set (asked w') = set (asked w1) \<union> (\<lambda>img. (url img, imageTitleOf img)) ` set xs"
    using Cons.IH[of "est + 1000" w1 "bs @ [r]"] by blast
  have s: "set (asked w1) = set (asked w) \<union> {(url x, imageTitleOf x)}"
    using p(3,4) by auto
  have "foldl (\<lambda>acc img. processImage e dry img acc) (est, w, bs) (x # xs)
        = (est + 1000 * length (x # xs), w', bs @ (r # rs))"
    using p(1) f(1) by simp
  moreover have "map entryKey (r # rs) = map candidateKey (x # xs)"
    using p(2) f(2) by simp
  moreover have "dry \<longrightarrow> sent w' = sent w" using p(5) f(3) by simp
  moreover have "set (asked w') = set (asked w) \<union> (\<lambda>img. (url img, imageTitleOf img)) ` set (x # xs)"
    using s f(4) by auto
  ultimately show ?case by blast
qed

lemma batchLoop_done: "\<not> i < length xs \<Longrightarrow> batchLoop e dry xs i est w all = (all, w)"
  by (subst batchLoop.simps) simp

lemma drop_slice: "slice xs i (i + 5) @ drop (i + 5) xs = drop i xs"
proof -
  have "take 5 (drop i xs) @ drop 5 (drop i xs) = drop i xs" by (rule append_take_drop_id)
  then show ?thesis by (simp add: slice_def add.commute)
qed

lemma batchLoop_shape:
  "\<exists>bs w'. batchLoop e dry xs i est w all = (all @ bs, w') \<and>
     map entryKey (concat (map updates bs)) = map candidateKey (drop i xs) \<and>
     (dry \<longrightarrow> sent w' = sent w) \<and>
     set (asked w') = set (asked w) \<union> (\<lambda>img. (url img, imageTitleOf img)) ` set (drop i xs) \<and>
     (i < length xs \<longrightarrow> bs \<noteq> [])"
proof (induction e dry xs i est w all rule: batchLoop.induct)
  case (1 e dry xs i est w all)
  show ?case
  proof (cases "i < length xs")
    case False
    then have "batchLoop e dry xs i est w all = (all @ [], w)" by (simp add: batchLoop_done)
    with False show ?thesis by (intro exI[of _ "[]"] exI[of _ w]) simp
  next
    case lt: True
    define b where "b = slice xs i (i + 5)"
    define est0 where "est0 = (if est + length b * 1000 > 27000 then 0 else est)"
    obtain rs w1 where f: "foldl (\<lambda>acc img. processImage e dry img acc) (est0, w, []) b
          = (est0 + 1000 * length b, w1, [] @ rs)"
        "map entryKey rs = map candidateKey b" "dry \<longrightarrow> sent w1 = sent w"
        "set (asked w1) = set (asked w) \<union> (\<lambda>img. (url img, imageTitleOf img)) ` set b"
      using foldl_processImage[of e dry est0 w "[]" b] by blast
    let ?entry = "\<lparr>batch = i div 5 + 1, updates = rs\<rparr>"
    have f': "(est0 + 1000 * length b, w1, rs)
        = foldl (\<lambda>acc img. processImage e dry img acc) (est0, w, []) b"
      using f(1) by simp
    have unf: "batchLoop e dry xs i est w all
        = batchLoop e dry xs (i + 5) (est0 + 1000 * length b) w1 (all @ [?entry])"
      using lt f(1) by (subst batchLoop.simps) (simp add: Let_def b_def est0_def)
    obtain bs w' where ih:
        "batchLoop e dry xs (i + 5) (est0 + 1000 * length b) w1 (all @ [?entry])
           = ((all @ [?entry]) @ bs, w')"
        "map entryKey (concat (map updates bs)) = map candidateKey (drop (i + 5) xs)"
        "dry \<longrightarrow> sent w' = sent w1"
        "set (asked w') = set (asked w1) \<union> (\<lambda>img. (url img, imageTitleOf img)) ` set (drop (i + 5) xs)"
      using "1.IH"[OF lt b_def refl est0_def f' refl] by blast
    have d: "drop i xs = b @ drop (i + 5) xs" by (simp add: b_def drop_slice)
    have "batchLoop e dry xs i est w all = (all @ (?entry # bs), w')"
      using unf ih(1) by simp
    moreover have "map entryKey (concat (map updates (?entry # bs))) = map candidateKey (drop i xs)"
      using f(2) ih(2) d by simp
    moreover have "dry \<longrightarrow> sent w' = sent w" using f(3) ih(3) by simp
    moreover have "set (asked w') = set (asked w) \<union> (\<lambda>img. (url img, imageTitleOf img)) ` set (drop i xs)"
      using f(4) ih(4) d by auto
    ultimately show ?thesis by blast
  qed
qed

lemma verifyScopes_world:
  "verifyScopes e rs \<lparr>sent = [], asked = []\<rparr> = (x, w) \<Longrightarrow>
   asked w = [] \<and> list_all (\<lambda>b. b = ScopesQuery) (sent w) \<and>
   list_all (\<lambda>b. \<not> isMutation b) (sent w)"
proof -
  assume a: "verifyScopes e rs \<lparr>sent = [], asked = []\<rparr> = (x, w)"
  obtain k where "snd (request e ScopesQuery \<lparr>sent = [], asked = []\<rparr>)
      = \<lparr>sent = [], asked = []\<rparr>\<lparr>sent := sent \<lparr>sent = [], asked = []\<rparr> @ replicate k ScopesQuery\<rparr>"
    using request_sent by blast
  with a have "w = \<lparr>sent = replicate k ScopesQuery, asked = []\<rparr>"
    using verifyScopes_snd[of e rs "\<lparr>sent = [], asked = []\<rparr>"] by simp
  then show ?thesis by (simp add: list_all_iff isMutation_def)
qed

lemma getAllImages_world:
  "getAllImages e w = Some (x, w') \<Longrightarrow> asked w = [] \<Longrightarrow>
   list_all (\<lambda>b. \<not> isMutation b) (sent w) \<Longrightarrow>
   asked w' = [] \<and> list_all (\<lambda>b. \<not> isMutation b) (sent w')"
  using getAllImagesLoop_reads[of e "[]" None True w "(x, w')"]
  by (auto simp: getAllImages_def)

lemma tryBlock_run:
  assumes "verifyScopes e [''read_files'', ''write_files''] \<lparr>sent = [], asked = []\<rparr> = (Inr True, w1)"
    and "getAllImages e w1 = Some (Inr images, w2)"
    and "gptClientError e = None" and "mkdirError e = None"
  shows "tryBlock e dry =
    Some (None, fst (batchLoop e dry (imagesMissingAlt images) 0 0 w2 []),
          snd (batchLoop e dry (imagesMissingAlt images) 0 0 w2 []))"
  using assms by (simp add: tryBlock_def batchLoop_done split: prod.splits)

lemma tryBlock_cases:
  assumes "tryBlock e dry = Some (err, all, w)"
  shows "(all = [] \<and> asked w = [] \<and> list_all (\<lambda>b. \<not> isMutation b) (sent w)) \<or>
    (\<exists>xs w2. err = None \<and> xs \<noteq> [] \<and> batchLoop e dry xs 0 0 w2 [] = (all, w) \<and>
       asked w2 = [] \<and> list_all (\<lambda>b. \<not> isMutation b) (sent w2))"
proof -
  obtain x w1 where v: "verifyScopes e [''read_files'', ''write_files''] \<lparr>sent = [], asked = []\<rparr> = (x, w1)"
    by (cases "verifyScopes e [''read_files'', ''write_files''] \<lparr>sent = [], asked = []\<rparr>")
  note w1 = verifyScopes_world[OF v]
  show ?thesis
  proof (cases x)
    case (Inl msg)
    with assms v w1 show ?thesis by (simp add: tryBlock_def)
  next
    case (Inr has)
    show ?thesis
    proof (cases has)
      case False
      with assms v w1 Inr show ?thesis by (simp add: tryBlock_def)
    next
      case True
      from assms v Inr True obtain y w2 where g: "getAllImages e w1 = Some (y, w2)"
        by (cases "getAllImages e w1") (auto simp: tryBlock_def)
      have w2: "asked w2 = []" "list_all (\<lambda>b. \<not> isMutation b) (sent w2)"
        using getAllImages_world[OF g] w1 by simp_all
      show ?thesis
      proof (cases y)
        case (Inl msg)
        with assms v \<open>x = Inr has\<close> True g w2 show ?thesis by (simp add: tryBlock_def)
      next
        case (Inr images)
        show ?thesis
        proof (cases "imagesMissingAlt images = [] \<or> gptClientError e \<noteq> None \<or> mkdirError e \<noteq> None")
          case True
          with assms v \<open>x = Inr has\<close> \<open>has\<close> g w2 Inr
          have "all = [] \<and> w = w2"
            by (auto simp: tryBlock_def split: option.splits if_splits)
          with w2 show ?thesis by simp
        next
          case False
          with assms v \<open>x = Inr has\<close> \<open>has\<close> g Inr
          have "err = None" "batchLoop e dry (imagesMissingAlt images) 0 0 w2 [] = (all, w)"
            by (auto simp: tryBlock_def split: prod.splits)
          with False w2 show ?thesis by blast
        qed
      qed
    qed
  qed
qed

lemma main_tryBlock:
  "tryBlock e dry = Some (err, all, w) \<Longrightarrow>
   main e dry = Some \<lparr>caught = err, final = w,
     writeCalls = (if all = [] then [] else [\<lparr>dryRun = dry, batches = all\<rparr>]),
     outputFiles = (if all = [] \<or> writeFileError e \<noteq> None then []
                    else [\<lparr>dryRun = dry, batches = all\<rparr>])\<rparr>"
  by (auto simp: main_def finallyBlock_def Let_def split: option.splits)

lemma main_Some:
  "main e dry = Some out \<Longrightarrow> \<exists>all. tryBlock e dry = Some (caught out, all, final out)"
  by (auto simp: main_def split: option.splits prod.splits)

text \<open>
  Claim C5. In a run that reaches the batch loop (the scopes are granted, the listing
  succeeds, the generator client and the output directory are set up), the report handed
  to \<open>fs.writeFile\<close> has exactly one entry for every Candidate, with its id and URL,
  whatever the outcome for that Candidate was; the report is written at most once, and it
  is the file on disk when the write succeeds.
\<close>

theorem C5_report_complete:
  assumes "verifyScopes e [''read_files'', ''write_files''] \<lparr>sent = [], asked = []\<rparr> = (Inr True, w1)"
    and "getAllImages e w1 = Some (Inr images, w2)"
    and "gptClientError e = None" and "mkdirError e = None"
  shows "\<exists>out. main e dry = Some out \<and> caught out = None \<and> length (writeCalls out) \<le> 1 \<and>
     mset (map entryKey (reportEntries (writeCalls out)))
       = mset (map candidateKey (imagesMissingAlt images)) \<and>
     (writeFileError e = None \<longrightarrow> outputFiles out = writeCalls out)"
proof -
  obtain bs w' where b: "batchLoop e dry (imagesMissingAlt images) 0 0 w2 [] = ([] @ bs, w')"
      "map entryKey (concat (map updates bs)) = map candidateKey (drop 0 (imagesMissingAlt images))"
    using batchLoop_shape[of e dry "imagesMissingAlt images" 0 0 w2 "[]"] by blast
  have "tryBlock e dry = Some (None, bs, w')"
    using tryBlock_run[OF assms, of dry] b(1) by simp
  have m: "mset (map entryKey (concat (map updates bs)))
      = mset (map candidateKey (imagesMissingAlt images))"
    using arg_cong[OF b(2), of mset] by simp
  have r: "reportEntries (if bs = [] then [] else [\<lparr>dryRun = dry, batches = bs\<rparr>])
      = concat (map updates bs)"
    by (simp add: reportEntries_def)
  from main_tryBlock[OF \<open>tryBlock e dry = Some (None, bs, w')\<close>] m r show ?thesis
    by (intro exI[of _ "\<lparr>caught = None, final = w',
        writeCalls = (if bs = [] then [] else [\<lparr>dryRun = dry, batches = bs\<rparr>]),
        outputFiles = (if bs = [] \<or> writeFileError e \<noteq> None then []
                       else [\<lparr>dryRun = dry, batches = bs\<rparr>])\<rparr>"])
      (simp del: mset_map)
qed

theorem C5_report_complete_witness:
  "verifyScopes (exampleEnv bothScopes [onePage [ethiopiaNode, noUrlNode, logoNode]] Refusal)
     [''read_files'', ''write_files''] \<lparr>sent = [], asked = []\<rparr>
     = (Inr True, \<lparr>sent = [ScopesQuery], asked = []\<rparr>) \<and>
   getAllImages (exampleEnv bothScopes [onePage [ethiopiaNode, noUrlNode, logoNode]] Refusal)
     \<lparr>sent = [ScopesQuery], asked = []\<rparr>
     = Some (Inr (map toImage [ethiopiaNode, noUrlNode, logoNode]),
             \<lparr>sent = [ScopesQuery, FilesQuery 50 None], asked = []\<rparr>) \<and>
   gptClientError (exampleEnv bothScopes [onePage [ethiopiaNode, noUrlNode, logoNode]] Refusal) = None \<and>
   mkdirError (exampleEnv bothScopes [onePage [ethiopiaNode, noUrlNode, logoNode]] Refusal) = None \<and>
   (\<exists>out. main (exampleEnv bothScopes [onePage [ethiopiaNode, noUrlNode, logoNode]] Refusal) False
            = Some out \<and>
      mset (map entryKey (reportEntries (writeCalls out)))
        = mset (map candidateKey (imagesMissingAlt (map toImage [ethiopiaNode, noUrlNode, logoNode]))))"
proof -
  let ?e = "exampleEnv bothScopes [onePage [ethiopiaNode, noUrlNode, logoNode]] Refusal"
  have h1: "verifyScopes ?e [''read_files'', ''write_files''] \<lparr>sent = [], asked = []\<rparr>
     = (Inr True, \<lparr>sent = [ScopesQuery], asked = []\<rparr>)"
    by code_simp
  have h2: "getAllImages ?e \<lparr>sent = [ScopesQuery], asked = []\<rparr>
     = Some (Inr (map toImage [ethiopiaNode, noUrlNode, logoNode]),
             \<lparr>sent = [ScopesQuery, FilesQuery 50 None], asked = []\<rparr>)"
    by code_simp
  have h3: "gptClientError ?e = None" and h4: "mkdirError ?e = None"
    by (simp_all add: exampleEnv_def)
  from C5_report_complete[OF h1 h2 h3 h4, of False] h1 h2 h3 h4 show ?thesis by blast
qed

lemma foldl_processImage_dry:
  "\<exists>w'. foldl (\<lambda>acc img. processImage e True img acc) (est, w, bs) b
        = (est + 1000 * length b, w', bs @ generatedEntries (gpt e) w b) \<and>
     (\<forall>rest. generatedEntries (gpt e) w (b @ rest)
        = generatedEntries (gpt e) w b @ generatedEntries (gpt e) w' rest)"
proof (induction b arbitrary: est w bs)
  case Nil
  show ?case by simp
next
  case (Cons x xs)
  obtain a w1 where g: "generateAltTag (gpt e) (url x) (imageTitleOf x) w = (a, w1)"
    by (cases "generateAltTag (gpt e) (url x) (imageTitleOf x) w")
  let ?r = "\<lparr>imageId = id' x, altTag = a, imageUrl = url x, error = None\<rparr>"
  have p: "processImage e True x (est, w, bs) = (est + 1000, w1, bs @ [?r])"
    using processImage_dry[of e x est w bs] g by simp
  obtain w' where f: "foldl (\<lambda>acc img. processImage e True img acc) (est + 1000, w1, bs @ [?r]) xs
        = (est + 1000 + 1000 * length xs, w', (bs @ [?r]) @ generatedEntries (gpt e) w1 xs)"
      "\<forall>rest. generatedEntries (gpt e) w1 (xs @ rest)
        = generatedEntries (gpt e) w1 xs @ generatedEntries (gpt e) w' rest"
    using Cons.IH[of "est + 1000" w1 "bs @ [?r]"] by blast
  have "foldl (\<lambda>acc img. processImage e True img acc) (est, w, bs) (x # xs)
        = (est + 1000 * length (x # xs), w', bs @ generatedEntries (gpt e) w (x # xs))"
    using p f(1) g by simp
  moreover have "\<forall>rest. generatedEntries (gpt e) w ((x # xs) @ rest)
        = generatedEntries (gpt e) w (x # xs) @ generatedEntries (gpt e) w' rest"
    using f(2) g by simp
  ultimately show ?case by blast
qed

lemma batchLoop_dry:
  "\<exists>bs w'. batchLoop e True xs i est w all = (all @ bs, w') \<and>
     concat (map updates bs) = generatedEntries (gpt e) w (drop i xs)"
proof (induction e "True" xs i est w all rule: batchLoop.induct)
  case (1 e xs i est w all)
  show ?case
  proof (cases "i < length xs")
    case False
    then have "batchLoop e True xs i est w all = (all @ [], w)" by (simp add: batchLoop_done)
    with False show ?thesis by (intro exI[of _ "[]"] exI[of _ w]) simp
  next
    case lt: True
    define b where "b = slice xs i (i + 5)"
    define est0 where "est0 = (if est + length b * 1000 > 27000 then 0 else est)"
    obtain w1 where f: "foldl (\<lambda>acc img. processImage e True img acc) (est0, w, []) b
          = (est0 + 1000 * length b, w1, [] @ generatedEntries (gpt e) w b)"
        "\<forall>rest. generatedEntries (gpt e) w (b @ rest)
           = generatedEntries (gpt e) w b @ generatedEntries (gpt e) w1 rest"
      using foldl_processImage_dry[of e est0 w "[]" b] by blast
    let ?entry = "\<lparr>batch = i div 5 + 1, updates = generatedEntries (gpt e) w b\<rparr>"
    have f': "(est0 + 1000 * length b, w1, generatedEntries (gpt e) w b)
        = foldl (\<lambda>acc img. processImage e True img acc) (est0, w, []) b"
      using f(1) by simp
    have unf: "batchLoop e True xs i est w all
        = batchLoop e True xs (i + 5) (est0 + 1000 * length b) w1 (all @ [?entry])"
      using lt f(1) by (subst batchLoop.simps) (simp add: Let_def b_def est0_def)
    obtain bs w' where ih:
        "batchLoop e True xs (i + 5) (est0 + 1000 * length b) w1 (all @ [?entry])
           = ((all @ [?entry]) @ bs, w')"
        "concat (map updates bs) = generatedEntries (gpt e) w1 (drop (i + 5) xs)"
      using "1.hyps"[OF lt b_def refl est0_def f' refl] by blast
    have d: "drop i xs = b @ drop (i + 5) xs" by (simp add: b_def drop_slice)
    have "batchLoop e True xs i est w all = (all @ (?entry # bs), w')"
      using unf ih(1) by simp
    moreover have "concat (map updates (?entry # bs)) = generatedEntries (gpt e) w (drop i xs)"
      using ih(2) d f(2) by simp
    ultimately show ?thesis by blast
  qed
qed

text \<open>
  Claim C9. In dry-run mode no write mutation is ever posted, whatever the generator
  returns: every body sent during a run is a query, and processing a Candidate leaves
  the posted bodies unchanged. In a dry run that reaches the batch loop, the entries of
  the report handed to \<open>fs.writeFile\<close> (and of the file, when the write succeeds) are
  exactly the entries that carry, for each Candidate, the text \<open>generateAltTag\<close>
  returned for it, with no error; the entry pushed for a Candidate is that entry.
\<close>

theorem C9_dry_run:
  "(main e True = Some out \<longrightarrow> list_all (\<lambda>b. \<not> isMutation b) (sent (final out))) \<and>
   (verifyScopes e [''read_files'', ''write_files''] \<lparr>sent = [], asked = []\<rparr> = (Inr True, w1) \<and>
    getAllImages e w1 = Some (Inr images, w2) \<and>
    gptClientError e = None \<and> mkdirError e = None \<longrightarrow>
      (\<exists>r. main e True = Some r \<and>
         mset (reportEntries (writeCalls r))
           = mset (generatedEntries (gpt e) w2 (imagesMissingAlt images)) \<and>
         (writeFileError e = None \<longrightarrow> outputFiles r = writeCalls r))) \<and>
   processImage e True img (est, w, bs) =
     (est + 1000, snd (generateAltTag (gpt e) (url img) (imageTitleOf img) w),
      bs @ [\<lparr>imageId = id' img,
              altTag = fst (generateAltTag (gpt e) (url img) (imageTitleOf img) w),
              imageUrl = url img, error = None\<rparr>]) \<and>
   sent (snd (generateAltTag (gpt e) (url img) (imageTitleOf img) w)) = sent w"
proof -
  have a: "list_all (\<lambda>b. \<not> isMutation b) (sent (final out))" if m: "main e True = Some out"
  proof -
    from main_Some[OF m] obtain all where t: "tryBlock e True = Some (caught out, all, final out)"
      by blast
    from tryBlock_cases[OF t] show ?thesis
    proof
      assume "all = [] \<and> asked (final out) = [] \<and>
          list_all (\<lambda>b. \<not> isMutation b) (sent (final out))"
      then show ?thesis by simp
    next
      assume "\<exists>xs w2. caught out = None \<and> xs \<noteq> [] \<and>
          batchLoop e True xs 0 0 w2 [] = (all, final out) \<and>
          asked w2 = [] \<and> list_all (\<lambda>b. \<not> isMutation b) (sent w2)"
      then obtain xs w2 where r: "batchLoop e True xs 0 0 w2 [] = (all, final out)"
          "list_all (\<lambda>b. \<not> isMutation b) (sent w2)"
        by blast
      from batchLoop_shape[of e True xs 0 0 w2 "[]"] r(1)
      have "sent (final out) = sent w2" by auto
      with r(2) show ?thesis by simp
    qed
  qed
  have b: "\<exists>r. main e True = Some r \<and>
         mset (reportEntries (writeCalls r))
           = mset (generatedEntries (gpt e) w2 (imagesMissingAlt images)) \<and>
         (writeFileError e = None \<longrightarrow> outputFiles r = writeCalls r)"
    if h: "verifyScopes e [''read_files'', ''write_files''] \<lparr>sent = [], asked = []\<rparr> = (Inr True, w1)"
      "getAllImages e w1 = Some (Inr images, w2)" "gptClientError e = None" "mkdirError e = None"
  proof -
    obtain bs w' where l: "batchLoop e True (imagesMissingAlt images) 0 0 w2 [] = ([] @ bs, w')"
        "concat (map updates bs)
           = generatedEntries (gpt e) w2 (drop 0 (imagesMissingAlt images))"
      using batchLoop_dry[of e "imagesMissingAlt images" 0 0 w2 "[]"] by blast
    have t: "tryBlock e True = Some (None, bs, w')"
      using tryBlock_run[OF h, of True] l(1) by simp
    have r: "reportEntries (if bs = [] then [] else [\<lparr>dryRun = True, batches = bs\<rparr>])
        = generatedEntries (gpt e) w2 (imagesMissingAlt images)"
      using l(2) by (auto simp: reportEntries_def)
    from main_tryBlock[OF t] r show ?thesis
      by (intro exI[of _ "\<lparr>caught = None, final = w',
          writeCalls = (if bs = [] then [] else [\<lparr>dryRun = True, batches = bs\<rparr>]),
          outputFiles = (if bs = [] \<or> writeFileError e \<noteq> None then []
                         else [\<lparr>dryRun = True, batches = bs\<rparr>])\<rparr>"])
        simp
  qed
  obtain k where "snd (generateAltTag (gpt e) (url img) (imageTitleOf img) w)
      = w\<lparr>asked := asked w @ replicate k (url img, imageTitleOf img)\<rparr>"
    using generateAltTag_asked by blast
  then have "sent (snd (generateAltTag (gpt e) (url img) (imageTitleOf img) w)) = sent w"
    by simp
  with a b processImage_dry show ?thesis by blast
qed

theorem C9_dry_run_witness:
  "verifyScopes (exampleEnv bothScopes [onePage manyNodes] Refusal)
     [''read_files'', ''write_files''] \<lparr>sent = [], asked = []\<rparr>
     = (Inr True, \<lparr>sent = [ScopesQuery], asked = []\<rparr>) \<and>
   getAllImages (exampleEnv bothScopes [onePage manyNodes] Refusal)
     \<lparr>sent = [ScopesQuery], asked = []\<rparr>
     = Some (Inr (map toImage manyNodes),
             \<lparr>sent = [ScopesQuery, FilesQuery 50 None], asked = []\<rparr>) \<and>
   gptClientError (exampleEnv bothScopes [onePage manyNodes] Refusal) = None \<and>
   mkdirError (exampleEnv bothScopes [onePage manyNodes] Refusal) = None \<and>
   (\<exists>r. main (exampleEnv bothScopes [onePage manyNodes] Refusal) True = Some r \<and>
      list_all (\<lambda>b. \<not> isMutation b) (sent (final r)) \<and>
      map altTag (generatedEntries (\<lambda>k. Refusal)
          \<lparr>sent = [ScopesQuery, FilesQuery 50 None], asked = []\<rparr>
          (imagesMissingAlt (map toImage manyNodes)))
        = [Some ''ethiopia yirgacheffe.jpg specialty coffee on Beans.ie from global roasters'',
           None,
           Some ''ethiopia yirgacheffe.jpg specialty coffee on Beans.ie from global roasters'',
           None,
           Some ''ethiopia yirgacheffe.jpg specialty coffee on Beans.ie from global roasters'',
           Some ''ethiopia yirgacheffe.jpg specialty coffee on Beans.ie from global roasters''] \<and>
      mset (reportEntries (writeCalls r))
        = mset (generatedEntries (\<lambda>k. Refusal)
            \<lparr>sent = [ScopesQuery, FilesQuery 50 None], asked = []\<rparr>
            (imagesMissingAlt (map toImage manyNodes))) \<and>
      outputFiles r = writeCalls r)"
proof -
  let ?e = "exampleEnv bothScopes [onePage manyNodes] Refusal"
  let ?w2 = "\<lparr>sent = [ScopesQuery, FilesQuery 50 None], asked = []\<rparr>"
  have h1: "verifyScopes ?e [''read_files'', ''write_files''] \<lparr>sent = [], asked = []\<rparr>
     = (Inr True, \<lparr>sent = [ScopesQuery], asked = []\<rparr>)"
    by code_simp
  have h2: "getAllImages ?e \<lparr>sent = [ScopesQuery], asked = []\<rparr>
     = Some (Inr (map toImage manyNodes), ?w2)"
    by code_simp
  have h3: "gptClientError ?e = None" and h4: "mkdirError ?e = None"
    and h5: "writeFileError ?e = None" and g: "gpt ?e = (\<lambda>k. Refusal)"
    by (simp_all add: exampleEnv_def)
  have v: "map altTag (generatedEntries (\<lambda>k. Refusal) ?w2 (imagesMissingAlt (map toImage manyNodes)))
        = [Some ''ethiopia yirgacheffe.jpg specialty coffee on Beans.ie from global roasters'',
           None,
           Some ''ethiopia yirgacheffe.jpg specialty coffee on Beans.ie from global roasters'',
           None,
           Some ''ethiopia yirgacheffe.jpg specialty coffee on Beans.ie from global roasters'',
           Some ''ethiopia yirgacheffe.jpg specialty coffee on Beans.ie from global roasters'']"
    by code_simp
  note c = C9_dry_run[where e = ?e and ?w1.0 = "\<lparr>sent = [ScopesQuery], asked = []\<rparr>"
      and images = "map toImage manyNodes" and ?w2.0 = ?w2]
  from c h1 h2 h3 h4 obtain r where r: "main ?e True = Some r"
      "mset (reportEntries (writeCalls r))
         = mset (generatedEntries (gpt ?e) ?w2 (imagesMissingAlt (map toImage manyNodes)))"
      "writeFileError ?e = None \<longrightarrow> outputFiles r = writeCalls r"
    by blast
  from C9_dry_run[where e = ?e and out = r] r(1)
  have "list_all (\<lambda>b. \<not> isMutation b) (sent (final r))" by blast
  with r h5 g h1 h2 h3 h4 v show ?thesis by (intro conjI exI[of _ r]) simp_all
qed

text \<open>
  Claim C10. A listed asset whose remote record has no image URL gets the empty string as
  its URL; the empty string does not end in ".svg", so the asset has a supported format;
  if its alt text is blank as well it is a Candidate, and in a run that reaches the batch
  loop the generator is called for it with an empty image URL.
\<close>

theorem C10_no_url_candidate:
  assumes "verifyScopes e [''read_files'', ''write_files''] \<lparr>sent = [], asked = []\<rparr> = (Inr True, w1)"
    and "getAllImages e w1 = Some (Inr images, w2)"
    and "gptClientError e = None" and "mkdirError e = None"
    and nourl: "image_url n = None \<or> image_url n = Some []"
    and blank: "case alt n of None \<Rightarrow> True | Some a \<Rightarrow> list_all isWhiteSpace a"
    and listed: "toImage n \<in> set images"
  shows "url (toImage n) = [] \<and> isSupportedFormat (toImage n) \<and>
     toImage n \<in> set (imagesMissingAlt images) \<and>
     (\<exists>out. main e dry = Some out \<and>
        ([], imageTitleOf (toImage n)) \<in> set (asked (final out)))"
proof -
  have u: "url (toImage n) = []"
    using nourl by (auto simp: toImage_def Let_def)
  have f: "isSupportedFormat (toImage n)"
    by (simp add: isSupportedFormat_def endsWith_def u toLowerCase_def)
  have "altText (toImage n) = alt n" by (simp add: toImage_def Let_def)
  with blank have m: "isMissingAlt (toImage n)"
    by (auto simp: isMissingAlt_def trim_Nil_iff list_all_iff split: option.splits)
  have c: "toImage n \<in> set (imagesMissingAlt images)"
    using listed m f by (simp add: imagesMissingAlt_def)
  obtain bs w' where b: "batchLoop e dry (imagesMissingAlt images) 0 0 w2 [] = ([] @ bs, w')"
      "set (asked w') = set (asked w2) \<union>
         (\<lambda>img. (url img, imageTitleOf img)) ` set (drop 0 (imagesMissingAlt images))"
    using batchLoop_shape[of e dry "imagesMissingAlt images" 0 0 w2 "[]"] by blast
  have t: "tryBlock e dry = Some (None, bs, w')"
    using tryBlock_run[OF assms(1-4), of dry] b(1) by simp
  have "(url (toImage n), imageTitleOf (toImage n)) \<in> set (asked w')"
    using b(2) c by auto
  with u main_tryBlock[OF t] have "\<exists>out. main e dry = Some out \<and>
        ([], imageTitleOf (toImage n)) \<in> set (asked (final out))"
    by simp
  with u f c show ?thesis by simp
qed

theorem C10_no_url_candidate_witness:
  "verifyScopes (exampleEnv bothScopes [onePage [ethiopiaNode, noUrlNode, logoNode]] Refusal)
     [''read_files'', ''write_files''] \<lparr>sent = [], asked = []\<rparr>
     = (Inr True, \<lparr>sent = [ScopesQuery], asked = []\<rparr>) \<and>
   getAllImages (exampleEnv bothScopes [onePage [ethiopiaNode, noUrlNode, logoNode]] Refusal)
     \<lparr>sent = [ScopesQuery], asked = []\<rparr>
     = Some (Inr (map toImage [ethiopiaNode, noUrlNode, logoNode]),
             \<lparr>sent = [ScopesQuery, FilesQuery 50 None], asked = []\<rparr>) \<and>
   image_url noUrlNode = None \<and> alt noUrlNode = Some '' '' \<and>
   url (toImage noUrlNode) = [] \<and>
   toImage noUrlNode \<in> set (imagesMissingAlt (map toImage [ethiopiaNode, noUrlNode, logoNode])) \<and>
   (\<exists>out. main (exampleEnv bothScopes [onePage [ethiopiaNode, noUrlNode, logoNode]] Refusal) False
            = Some out \<and>
      ([], imageTitleOf (toImage noUrlNode)) \<in> set (asked (final out)))"
proof -
  let ?e = "exampleEnv bothScopes [onePage [ethiopiaNode, noUrlNode, logoNode]] Refusal"
  have h1: "verifyScopes ?e [''read_files'', ''write_files''] \<lparr>sent = [], asked = []\<rparr>
     = (Inr True, \<lparr>sent = [ScopesQuery], asked = []\<rparr>)"
    by code_simp
  have h2: "getAllImages ?e \<lparr>sent = [ScopesQuery], asked = []\<rparr>
     = Some (Inr (map toImage [ethiopiaNode, noUrlNode, logoNode]),
             \<lparr>sent = [ScopesQuery, FilesQuery 50 None], asked = []\<rparr>)"
    by code_simp
  have h3: "gptClientError ?e = None" and h4: "mkdirError ?e = None"
    by (simp_all add: exampleEnv_def)
  have h5: "image_url noUrlNode = None \<or> image_url noUrlNode = Some []"
    and h5': "image_url noUrlNode = None" and h6': "alt noUrlNode = Some '' ''"
    by (simp_all add: noUrlNode_def)
  have h6: "case alt noUrlNode of None \<Rightarrow> True | Some a \<Rightarrow> list_all isWhiteSpace a"
    by code_simp
  have h7: "toImage noUrlNode \<in> set (map toImage [ethiopiaNode, noUrlNode, logoNode])"
    by simp
  from C10_no_url_candidate[OF h1 h2 h3 h4 h5 h6 h7, of False] h1 h2 h5' h6'
  show ?thesis by blast
qed

text \<open>
  Claim C2 as stated fails: with the scope \<open>write_files\<close> missing, the run aborts after
  the scopes query and no report file is written at all.
\<close>

theorem C2_counterexample:
  "verifyScopes (exampleEnv [''read_files''] [] Refusal) [''read_files'', ''write_files'']
     \<lparr>sent = [], asked = []\<rparr> = (Inr False, \<lparr>sent = [ScopesQuery], asked = []\<rparr>) \<and>
   main (exampleEnv [''read_files''] [] Refusal) False =
     Some \<lparr>caught = Some missingScopes, final = \<lparr>sent = [ScopesQuery], asked = []\<rparr>,
            writeCalls = [], outputFiles = []\<rparr>"
  by code_simp

text \<open>
  Claim C2, amended. When the required scopes are missing, the run aborts with the
  missing-scopes error before any batch is processed (nothing but the scopes query has
  been sent, no completion call was made) and no report is written. In general the
  \<open>finally\<close> block calls \<open>fs.writeFile\<close> at most once: once when at least one batch was
  produced, and not at all otherwise; when the \<open>try\<close> block raised an error no batch
  had been produced, so nothing is written.
\<close>

theorem C2_report_written_iff_batches:
  "(verifyScopes e [''read_files'', ''write_files''] \<lparr>sent = [], asked = []\<rparr> = (Inr False, w) \<longrightarrow>
      main e dry = Some \<lparr>caught = Some missingScopes, final = w, writeCalls = [],
                          outputFiles = []\<rparr> \<and>
      asked w = [] \<and> list_all (\<lambda>b. b = ScopesQuery) (sent w)) \<and>
   (tryBlock e dry = Some (err, all, w') \<longrightarrow>
      main e dry = Some \<lparr>caught = err, final = w',
        writeCalls = (if all = [] then [] else [\<lparr>dryRun = dry, batches = all\<rparr>]),
        outputFiles = (if all = [] \<or> writeFileError e \<noteq> None then []
                       else [\<lparr>dryRun = dry, batches = all\<rparr>])\<rparr> \<and>
      (err \<noteq> None \<longrightarrow> all = []))"
proof -
  have a: "main e dry = Some \<lparr>caught = Some missingScopes, final = w, writeCalls = [],
                          outputFiles = []\<rparr> \<and>
      asked w = [] \<and> list_all (\<lambda>b. b = ScopesQuery) (sent w)"
    if v: "verifyScopes e [''read_files'', ''write_files''] \<lparr>sent = [], asked = []\<rparr> = (Inr False, w)"
  proof -
    have "tryBlock e dry = Some (Some missingScopes, [], w)"
      using v by (simp add: tryBlock_def)
    from main_tryBlock[OF this] verifyScopes_world[OF v] show ?thesis by simp
  qed
  have b: "err \<noteq> None \<longrightarrow> all = []" if t: "tryBlock e dry = Some (err, all, w')"
    using tryBlock_cases[OF t] by auto
  from a b main_tryBlock show ?thesis by blast
qed

theorem C2_report_written_iff_batches_witness:
  "verifyScopes (exampleEnv [''read_files''] [] Refusal) [''read_files'', ''write_files'']
     \<lparr>sent = [], asked = []\<rparr> = (Inr False, \<lparr>sent = [ScopesQuery], asked = []\<rparr>) \<and>
   main (exampleEnv [''read_files''] [] Refusal) True =
     Some \<lparr>caught = Some missingScopes, final = \<lparr>sent = [ScopesQuery], asked = []\<rparr>,
            writeCalls = [], outputFiles = []\<rparr> \<and>
   tryBlock (exampleEnv bothScopes [onePage [noUrlNode]] Refusal) True =
     Some (None,
           [\<lparr>batch = 1, updates = [\<lparr>imageId = ''gid://shopify/MediaImage/2'', altTag = None,
                                      imageUrl = [], error = None\<rparr>]\<rparr>],
           \<lparr>sent = [ScopesQuery, FilesQuery 50 None], asked = [([], ''2'')]\<rparr>) \<and>
   writeCalls (the (main (exampleEnv bothScopes [onePage [noUrlNode]] Refusal) True)) =
     [\<lparr>dryRun = True,
       batches = [\<lparr>batch = 1, updates = [\<lparr>imageId = ''gid://shopify/MediaImage/2'',
                    altTag = None, imageUrl = [], error = None\<rparr>]\<rparr>]\<rparr>]"
proof -
  have h: "verifyScopes (exampleEnv [''read_files''] [] Refusal) [''read_files'', ''write_files'']
     \<lparr>sent = [], asked = []\<rparr> = (Inr False, \<lparr>sent = [ScopesQuery], asked = []\<rparr>)"
    by code_simp
  have t: "tryBlock (exampleEnv bothScopes [onePage [noUrlNode]] Refusal) True =
     Some (None,
           [\<lparr>batch = 1, updates = [\<lparr>imageId = ''gid://shopify/MediaImage/2'', altTag = None,
                                      imageUrl = [], error = None\<rparr>]\<rparr>],
           \<lparr>sent = [ScopesQuery, FilesQuery 50 None], asked = [([], ''2'')]\<rparr>)"
    by code_simp
  from C2_report_written_iff_batches[where e = "exampleEnv [''read_files''] [] Refusal"
      and w = "\<lparr>sent = [ScopesQuery], asked = []\<rparr>" and dry = True]
    C2_report_written_iff_batches[where e = "exampleEnv bothScopes [onePage [noUrlNode]] Refusal"
      and dry = True and err = None
      and all = "[\<lparr>batch = 1, updates = [\<lparr>imageId = ''gid://shopify/MediaImage/2'',
                    altTag = None, imageUrl = [], error = None\<rparr>]\<rparr>]"
      and w' = "\<lparr>sent = [ScopesQuery, FilesQuery 50 None], asked = [([], ''2'')]\<rparr>"]
    h t
  show ?thesis by simp
qed




end
